theory Spec2Isabelle
  imports Complex_Main "HOL-Library.Signed_Division"
begin

section \<open>The LGO deterministic predictor (lgojumpfinal.cpp)\<close>

text \<open>
  Modelling conventions.
  \<^item> \<open>std::string\<close> is \<open>string\<close>; \<open>long long\<close> and \<open>int\<close> values are \<open>int\<close>. Signed
    overflow is undefined in C++ and the model has none: the integers the predictor adds
    are a base gap of about the square of the input length over 50, a table entry, and the
    value the rounding cast returns for the density correction. String lengths are taken to
    fit the \<open>int\<close> indices of \<open>add_strings\<close> and to be below \<open>2 ^ 26\<close>, so that the square of
    the digit count is exact in double precision.
  \<^item> \<open>/\<close> and \<open>%\<close> on integers truncate towards zero: \<open>sdiv\<close> and \<open>smod\<close>.
  \<^item> \<open>char\<close> is a signed byte; \<open>c - '0'\<close> is \<open>char_code c - 48\<close>.
  \<^item> An exception (memory exhaustion aside, \<open>std::stold\<close> is the only source of one) and
    an out-of-range array read are values of \<open>error\<close>; the program has no handler, so an
    exception ends the call and nothing of the call's state is observed afterwards.
  \<^item> Floating point: where the result of a floating-point expression is an integer that
    IEEE arithmetic determines exactly (the rounding of \<open>d * d / 50\<close> and of
    \<open>delta_7 * pi / 10\<close>) the model computes it on rationals; every other floating-point
    operation (logarithms, the products and quotients of their results, the conversion of
    a decimal string, the final rounding cast) is a field of the record \<open>fpu\<close>, a parameter
    of the model. The carrier \<open>'f\<close> stands for long double values, doubles among them.
    The cast to \<open>long long\<close> of a value that is not finite (the logarithm of zero, when the
    ten leading digits are all zero) is undefined in C++; \<open>f_round_ll\<close> returns some integer
    for it, as the hardware does.
\<close>

subsection \<open>Characters and decimal strings\<close>

definition char_code :: "char \<Rightarrow> int" where
  "char_code c = (let n = of_char c in if n < (128 :: int) then n else n - 256)"

definition is_digit :: "char \<Rightarrow> bool" where
  "is_digit c = (48 \<le> (of_char c :: int) \<and> (of_char c :: int) \<le> 57)"

definition digit_string :: "string \<Rightarrow> bool" where
  "digit_string s = list_all is_digit s"

text \<open>The number a decimal string denotes: digit \<open>i\<close> weighs \<open>10\<close> to the number of digits
  after it.\<close>

primrec val :: "string \<Rightarrow> int" where
  "val [] = 0"
| "val (c # cs) = (char_code c - 48) * 10 ^ length cs + val cs"

subsection \<open>\<open>std::to_string(long long)\<close>\<close>

function nat_digits :: "nat \<Rightarrow> string" where
  "nat_digits n =
     (if n < 10 then [char_of (48 + n)]
      else nat_digits (n div 10) @ [char_of (48 + n mod 10)])"
  by pat_completeness auto
termination
  by (relation "measure id") auto

definition to_string :: "int \<Rightarrow> string" where
  "to_string k = (if k < 0 then CHR ''-'' # nat_digits (nat (- k)) else nat_digits (nat k))"

subsection \<open>\<open>add_strings\<close>\<close>

text \<open>
  The loop of \<open>add_strings\<close>. The index \<open>i\<close> walks \<open>large_num_str\<close> from its last character
  down and \<open>j\<close> does the same on \<open>small_num_str\<close>; the model holds the characters not yet
  consumed, last one first: \<open>i \<ge> 0\<close> is \<open>ls \<noteq> []\<close>, \<open>large_num_str[i]\<close> is \<open>hd ls\<close> and
  \<open>i--\<close> is \<open>tl ls\<close>. \<open>result.insert(0, 1, c)\<close> is \<open>c # result\<close>.
\<close>

function add_loop :: "string \<Rightarrow> string \<Rightarrow> int \<Rightarrow> string \<Rightarrow> string" where
  "add_loop ls ss carry result =
     (if ls \<noteq> [] \<or> ss \<noteq> [] \<or> carry \<noteq> 0 then
        let sum1 = (if ls \<noteq> [] then carry + (char_code (hd ls) - 48) else carry);
            sum2 = (if ss \<noteq> [] then sum1 + (char_code (hd ss) - 48) else sum1)
        in add_loop (if ls \<noteq> [] then tl ls else ls) (if ss \<noteq> [] then tl ss else ss)
             (sum2 sdiv 10) (char_of (sum2 smod 10 + 48) # result)
      else result)"
  by pat_completeness auto
termination
proof (relation "measures [\<lambda>(ls, ss, carry, result). length ls + length ss,
                           \<lambda>(ls, ss, carry, result). nat \<bar>carry\<bar>]", goal_cases)
  case 1
  show ?case by simp
next
  case (2 ls ss carry result sum1 sum2)
  show ?case
  proof (cases "ls \<noteq> [] \<or> ss \<noteq> []")
    case True
    then show ?thesis by (cases ls; cases ss) auto
  next
    case False
    with 2 have c: "carry \<noteq> 0" and s: "sum2 = carry" by auto
    from c have "\<bar>carry sdiv 10\<bar> = \<bar>carry\<bar> div 10"
      by (simp add: signed_divide_int_def abs_mult abs_sgn_eq)
    with c have "\<bar>carry sdiv 10\<bar> < \<bar>carry\<bar>" by simp
    with False s show ?thesis by simp
  qed
qed

definition add_strings :: "string \<Rightarrow> int \<Rightarrow> string" where
  "add_strings large_num_str small_num_ll =
     (let small_num_str = to_string small_num_ll
      in add_loop (rev large_num_str) (rev small_num_str) 0 [])"

subsection \<open>Remainders and the prime set\<close>

definition calculate_mod_12 :: "string \<Rightarrow> int" where
  "calculate_mod_12 pn_str =
     foldl (\<lambda>remainder c. (remainder * 10 + (char_code c - 48)) smod 12) 0 pn_str"

definition calculate_mod_7 :: "string \<Rightarrow> int" where
  "calculate_mod_7 pn_str =
     foldl (\<lambda>remainder c. (remainder * 10 + (char_code c - 48)) smod 7) 0 pn_str"

datatype PrimeSet = SET_NONE | SET_A | SET_B | SET_C | SET_D

text \<open>The integer an enumerator converts to when it indexes an array.\<close>

fun PrimeSet_int :: "PrimeSet \<Rightarrow> int" where
  "PrimeSet_int SET_NONE = 0"
| "PrimeSet_int SET_A = 1"
| "PrimeSet_int SET_B = 2"
| "PrimeSet_int SET_C = 3"
| "PrimeSet_int SET_D = 4"

definition determine_prime_set :: "string \<Rightarrow> PrimeSet" where
  "determine_prime_set pn_str =
     (if pn_str = [] then SET_NONE
      else let p_mod_12 = calculate_mod_12 pn_str in
        if p_mod_12 = 1 then SET_A
        else if p_mod_12 = 5 then SET_B
        else if p_mod_12 = 7 then SET_C
        else if p_mod_12 = 11 then SET_D
        else if pn_str = ''2'' then SET_A
        else if pn_str = ''3'' then SET_B
        else SET_NONE)"

subsection \<open>Floating point, exceptions, lookup tables\<close>

datatype error = Invalid_argument | Out_of_range | Out_of_bounds

text \<open>
  The floating-point unit and C library of the platform. Operations named \<open>_l\<close> work in
  long double, the others in double. \<open>ldbl_overflow\<close> is the least integer whose decimal
  string \<open>strtold\<close> reports as \<open>ERANGE\<close> (conversion is monotone, so there is one: just above
  \<open>LDBL_MAX\<close>); \<open>f_strtold\<close> is the value \<open>strtold\<close> gives a decimal string below it, and
  \<open>f_stold_other\<close> is what \<open>std::stold\<close> does on a string that is not all digits.
\<close>

record 'f fpu =
  f_lit :: "rat \<Rightarrow> 'f"
  f_lit_l :: "rat \<Rightarrow> 'f"
  f_of_ll :: "int \<Rightarrow> 'f"
  f_to_double :: "'f \<Rightarrow> 'f"
  f_mul :: "'f \<Rightarrow> 'f \<Rightarrow> 'f"
  f_div :: "'f \<Rightarrow> 'f \<Rightarrow> 'f"
  f_mul_l :: "'f \<Rightarrow> 'f \<Rightarrow> 'f"
  f_div_l :: "'f \<Rightarrow> 'f \<Rightarrow> 'f"
  f_add_l :: "'f \<Rightarrow> 'f \<Rightarrow> 'f"
  f_log :: "'f \<Rightarrow> 'f"
  f_log_l :: "'f \<Rightarrow> 'f"
  f_gt :: "'f \<Rightarrow> 'f \<Rightarrow> bool"
  f_round_ll :: "'f \<Rightarrow> int"
  f_strtold :: "string \<Rightarrow> 'f"
  ldbl_overflow :: int
  f_stold_other :: "string \<Rightarrow> error + 'f"

text \<open>\<open>std::stold\<close>: \<open>invalid_argument\<close> when nothing converts, \<open>out_of_range\<close> when
  \<open>strtold\<close> sets \<open>ERANGE\<close>.\<close>

definition stold :: "'f fpu \<Rightarrow> string \<Rightarrow> error + 'f" where
  "stold fp str =
     (if str = [] then Inl Invalid_argument
      else if digit_string str then
        (if ldbl_overflow fp \<le> val str then Inl Out_of_range
         else Inr (f_strtold fp str))
      else f_stold_other fp str)"

text \<open>\<open>std::round\<close> followed by the cast to \<open>long long\<close>, on an exact value: halves go away
  from zero.\<close>

definition cround :: "rat \<Rightarrow> int" where
  "cround x = (if 0 \<le> x then \<lfloor>x + 1 / 2\<rfloor> else \<lceil>x - 1 / 2\<rceil>)"

definition MATH_E_lit :: rat where
  "MATH_E_lit = 2718281828459045 / 10 ^ 15"

definition MATH_PI_lit :: rat where
  "MATH_PI_lit = 3141592653589793 / 10 ^ 15"

definition MUON_MASS_LD :: "'f fpu \<Rightarrow> 'f" where
  "MUON_MASS_LD fp = f_mul_l fp (f_lit_l fp (18835316 / 10 ^ 7)) (f_lit_l fp (1 / 10 ^ 28))"

definition ELECTRON_MASS_LD :: "'f fpu \<Rightarrow> 'f" where
  "ELECTRON_MASS_LD fp = f_mul_l fp (f_lit_l fp (91093837 / 10 ^ 7)) (f_lit_l fp (1 / 10 ^ 31))"

definition C_LGO_STATIC :: "'f fpu \<Rightarrow> 'f" where
  "C_LGO_STATIC fp = f_to_double fp (f_div_l fp (MUON_MASS_LD fp) (ELECTRON_MASS_LD fp))"

definition PHI_DAMPENER :: "'f fpu \<Rightarrow> 'f" where
  "PHI_DAMPENER fp = f_div fp (f_lit fp (16180339887 / 10 ^ 10)) (f_lit fp 2)"

definition C_LGO_STAR :: "'f fpu \<Rightarrow> 'f" where
  "C_LGO_STAR fp =
     f_mul fp (f_mul fp (C_LGO_STATIC fp) (PHI_DAMPENER fp))
       (f_div fp (f_log fp (C_LGO_STATIC fp))
          (f_log fp (f_mul fp (f_lit fp MATH_E_lit) (f_lit fp MATH_PI_lit))))"

definition ulam_delta_correction_12 :: "int list" where
  "ulam_delta_correction_12 = [0, - 2, 2, - 1, - 6]"

definition ulam_delta_correction_7 :: "int list" where
  "ulam_delta_correction_7 = [0, 3, - 1, 0, 1, - 1, 0]"

text \<open>\<open>a[i]\<close> on a built-in array: a read outside it is undefined behaviour, an error here.\<close>

definition array_read :: "int list \<Rightarrow> int \<Rightarrow> error + int" where
  "array_read a i = (if 0 \<le> i \<and> i < int (length a) then Inr (a ! nat i) else Inl Out_of_bounds)"

subsection \<open>The base gap\<close>

text \<open>Returns the tuple and the value left in \<open>success_flag\<close>.\<close>

definition LGO_CalculateNextPrime_BaseGap_Detailed :: "string \<Rightarrow> (int \<times> string \<times> int) \<times> bool" where
  "LGO_CalculateNextPrime_BaseGap_Detailed pn_str =
     (let digits = int (length pn_str);
          base_gap = cround (of_int (digits * digits) / 50) + 2;
          predicted_gap1 = base_gap + (2 sdiv 2);
          predicted_gap2 = (if predicted_gap1 smod 2 \<noteq> 0 then predicted_gap1 + 1 else predicted_gap1);
          predicted_gap = (if predicted_gap2 < 2 then 2 else predicted_gap2);
          p_n_plus_1 = [];
          success_flag = True
      in ((predicted_gap, p_n_plus_1, digits), success_flag))"

subsection \<open>The predictor\<close>

text \<open>The globals the predictor writes.\<close>

record 'f globals =
  current_phi :: 'f
  pnt_gap_ratio :: 'f
  current_prime_set_enum :: PrimeSet

record 'f PredictionMetrics =
  g_gravitational :: 'f
  current_prime_digits :: int
  base_gap_out :: int
  density_correction_G :: int
  delta_out :: int
  fluctuation_delta :: int
  final_gap :: int
  correlative_adjustment :: 'f
  current_prime_set :: string
  zeta_correlation_Z :: int
  rh_condition_status :: string
  pnt_ratio :: 'f

text \<open>
  \<open>LGO_Predict_Deterministic\<close> takes the globals and the caller's metrics record (passed by
  reference) and returns the pair it returns together with both as it leaves them.
\<close>

definition LGO_Predict_Deterministic ::
  "'f fpu \<Rightarrow> 'f globals \<times> 'f PredictionMetrics \<Rightarrow> string \<Rightarrow>
     error + ((int \<times> string) \<times> 'f globals \<times> 'f PredictionMetrics)" where
  "LGO_Predict_Deterministic fp st pn_str =
     (let (g0, m0) = st;
          digits = int (length pn_str);
          m1 = m0\<lparr>current_prime_digits := digits\<rparr>;
          ((base_gap_heuristic, next_p_str_temp, digits_check), success_flag) =
             LGO_CalculateNextPrime_BaseGap_Detailed pn_str;
          m2 = m1\<lparr>base_gap_out := base_gap_heuristic\<rparr>;
          g_rigid_constant = C_LGO_STAR fp;
          m3 = m2\<lparr>g_gravitational := g_rigid_constant\<rparr>
      in case stold fp (take (min 10 (length pn_str)) pn_str) of
           Inl e \<Rightarrow> Inl e
         | Inr lead \<Rightarrow>
      (let ln_pn = f_to_double fp
             (f_add_l fp (f_mul fp (f_log fp (f_lit fp 10)) (f_of_ll fp (digits - 1)))
                (f_log_l fp lead));
           phi_term = f_div fp (f_mul fp ln_pn (f_log fp g_rigid_constant)) g_rigid_constant;
           g1 = g0\<lparr>current_phi := phi_term\<rparr>;
           G_density = f_round_ll fp (current_phi g1);
           m4 = m3\<lparr>density_correction_G := G_density\<rparr>;
           g2 = g1\<lparr>current_prime_set_enum := determine_prime_set pn_str\<rparr>;
           m5 = m4\<lparr>current_prime_set :=
                  (case current_prime_set_enum g2 of
                     SET_A \<Rightarrow> ''SET_A'' | SET_B \<Rightarrow> ''SET_B''
                   | SET_C \<Rightarrow> ''SET_C'' | SET_D \<Rightarrow> ''SET_D''
                   | SET_NONE \<Rightarrow> ''SET_UNKNOWN'')\<rparr>
       in case array_read ulam_delta_correction_12 (PrimeSet_int (current_prime_set_enum g2)) of
            Inl e \<Rightarrow> Inl e
          | Inr delta_12 \<Rightarrow>
      (let p_n_mod_7 = calculate_mod_7 pn_str
       in case array_read ulam_delta_correction_7 p_n_mod_7 of
            Inl e \<Rightarrow> Inl e
          | Inr delta_7 \<Rightarrow>
      (let delta_final = delta_12 + cround (of_int delta_7 * MATH_PI_lit / 10);
           m6 = m5\<lparr>delta_out := delta_final\<rparr>;
           m7 = m6\<lparr>fluctuation_delta := 0\<rparr>;
           final_gap1 = base_gap_heuristic + delta_final + G_density;
           final_gap2 = (if final_gap1 smod 2 \<noteq> 0 then final_gap1 + 1 else final_gap1);
           final_gap3 = (if final_gap2 < 2 then 2 else final_gap2);
           m8 = m7\<lparr>final_gap := final_gap3\<rparr>;
           m9 = m8\<lparr>correlative_adjustment := current_phi g2\<rparr>
       in case stold fp pn_str of
            Inl e \<Rightarrow> Inl e
          | Inr full \<Rightarrow>
      (let ln_pn_precise = f_to_double fp (f_log_l fp full);
           (g3, m10) =
             (if f_gt fp ln_pn_precise (f_lit fp 0) then
                (let m = m9\<lparr>pnt_ratio := f_div fp (f_of_ll fp final_gap3) ln_pn_precise\<rparr>
                 in (g2\<lparr>pnt_gap_ratio := pnt_ratio m\<rparr>, m))
              else (g2, m9\<lparr>pnt_ratio := f_lit fp 0\<rparr>));
           m11 = m10\<lparr>zeta_correlation_Z := 0\<rparr>;
           m12 = m11\<lparr>rh_condition_status := ''STABLE (C_LGO*)''\<rparr>;
           next_prime_result = add_strings pn_str final_gap3
       in Inr ((final_gap3, next_prime_result), g3, m12))))))"

subsection \<open>An arithmetic unit to run the model on\<close>

text \<open>
  Exact rational arithmetic with a first-order logarithm (\<open>x - 1\<close>, which agrees with the
  natural logarithm in sign) and the overflow threshold of IEEE binary64, the long double
  of the Microsoft compiler. It serves to evaluate the model at concrete inputs.
\<close>

definition rat_fpu :: "rat fpu" where
  "rat_fpu = \<lparr>
     f_lit = (\<lambda>q. q), f_lit_l = (\<lambda>q. q), f_of_ll = of_int, f_to_double = (\<lambda>x. x),
     f_mul = (*), f_div = (/), f_mul_l = (*), f_div_l = (/), f_add_l = (+),
     f_log = (\<lambda>x. x - 1), f_log_l = (\<lambda>x. x - 1),
     f_gt = (\<lambda>x y. y < x), f_round_ll = cround,
     f_strtold = (\<lambda>s. of_int (val s)),
     ldbl_overflow = 2 ^ 1024 - 2 ^ 970,
     f_stold_other = (\<lambda>s. Inl Invalid_argument) \<rparr>"

definition globals0 :: "rat globals" where
  "globals0 = \<lparr> current_phi = 0, pnt_gap_ratio = 0, current_prime_set_enum = SET_D \<rparr>"

definition metrics0 :: "rat PredictionMetrics" where
  "metrics0 = \<lparr> g_gravitational = C_LGO_STAR rat_fpu, current_prime_digits = 0,
     base_gap_out = 0, density_correction_G = 0, delta_out = 0, fluctuation_delta = 0,
     final_gap = 0, correlative_adjustment = 0, current_prime_set = ''SET_D'',
     zeta_correlation_Z = 0, rh_condition_status = ''STABLE (C_LGO*)'', pnt_ratio = 0 \<rparr>"

subsection \<open>The specification's formulas\<close>

text \<open>The classification by remainder modulo 12 and the base gap as the specification
  words them, for comparison with the code.\<close>

definition spec_prime_set_class :: "int \<Rightarrow> PrimeSet" where
  "spec_prime_set_class r =
     (if r = 1 then SET_A else if r = 5 then SET_B else if r = 7 then SET_C
      else if r = 11 then SET_D else SET_NONE)"

definition spec_base_gap :: "nat \<Rightarrow> int" where
  "spec_base_gap d =
     (let base = round (of_nat (d * d) / (50 :: rat)) + 2;
          predicted = base + 1;
          predicted_even = (if odd predicted then predicted + 1 else predicted)
      in max 2 predicted_even)"

text \<open>The density correction as the specification words it: a function of the digit count
  and of the leading digits alone.\<close>

definition spec_ln_pn :: "'f fpu \<Rightarrow> nat \<Rightarrow> string \<Rightarrow> 'f" where
  "spec_ln_pn fp d leading =
     f_to_double fp
       (f_add_l fp (f_mul fp (f_log fp (f_lit fp 10)) (f_of_ll fp (int d - 1)))
          (f_log_l fp (f_strtold fp leading)))"

definition spec_phi :: "'f fpu \<Rightarrow> nat \<Rightarrow> string \<Rightarrow> 'f" where
  "spec_phi fp d leading =
     f_div fp (f_mul fp (spec_ln_pn fp d leading) (f_log fp (C_LGO_STAR fp))) (C_LGO_STAR fp)"

definition spec_G_density :: "'f fpu \<Rightarrow> nat \<Rightarrow> string \<Rightarrow> int" where
  "spec_G_density fp d leading = f_round_ll fp (spec_phi fp d leading)"

section \<open>Decimal strings: digits, values, remainders\<close>

declare add_loop.simps [simp del] nat_digits.simps [simp del]

lemma digit_code: "is_digit c \<Longrightarrow> 0 \<le> char_code c - 48 \<and> char_code c - 48 \<le> 9"
  by (auto simp: is_digit_def char_code_def Let_def)

lemma is_digit_char_of: "0 \<le> d \<Longrightarrow> d \<le> 9 \<Longrightarrow> is_digit (char_of (d + 48 :: int))"
  by (simp add: is_digit_def nat_mod_distrib) 

lemma char_code_char_of: "0 \<le> d \<Longrightarrow> d \<le> 9 \<Longrightarrow> char_code (char_of (d + 48 :: int)) - 48 = d"
  by (simp add: char_code_def Let_def)

lemma val_append: "val (a @ b) = val a * 10 ^ length b + val b"
  by (induction a) (simp_all add: algebra_simps power_add)

lemma val_snoc: "val (a @ [c]) = val a * 10 + (char_code c - 48)"
  by (simp add: val_append)

lemma val_nonneg: "digit_string s \<Longrightarrow> 0 \<le> val s"
  by (induction s) (auto simp: digit_string_def dest: digit_code)

lemma smod_nonneg: "0 \<le> a \<Longrightarrow> 0 < b \<Longrightarrow> a smod b = a mod (b::int)"
  by (cases "a = 0") (simp_all add: signed_modulo_int_def)

lemma sdiv_nonneg: "0 \<le> a \<Longrightarrow> 0 < b \<Longrightarrow> a sdiv b = a div (b::int)"
  by (cases "a = 0") (simp_all add: signed_divide_int_def)


lemma digit_string_append: "digit_string (a @ b) = (digit_string a \<and> digit_string b)"
  by (simp add: digit_string_def)

lemma calculate_mod_12_snoc:
  "calculate_mod_12 (s @ [c]) = (calculate_mod_12 s * 10 + (char_code c - 48)) smod 12"
  by (simp add: calculate_mod_12_def)

lemma calculate_mod_7_snoc:
  "calculate_mod_7 (s @ [c]) = (calculate_mod_7 s * 10 + (char_code c - 48)) smod 7"
  by (simp add: calculate_mod_7_def)

lemma calculate_mod_12_val: "digit_string s \<Longrightarrow> calculate_mod_12 s = val s mod 12"
proof (induction s rule: rev_induct)
  case Nil
  show ?case by (simp add: calculate_mod_12_def)
next
  case (snoc c s)
  then have ds: "digit_string s" and dc: "is_digit c"
    by (simp_all add: digit_string_def)
  have ih: "calculate_mod_12 s = val s mod 12" using snoc.IH ds by simp
  have nn: "0 \<le> val s mod 12 * 10 + (char_code c - 48)"
    using digit_code [OF dc] by simp
  have "calculate_mod_12 (s @ [c]) = (val s mod 12 * 10 + (char_code c - 48)) mod 12"
    by (simp add: calculate_mod_12_snoc ih smod_nonneg [OF nn])
  also have "\<dots> = (val s * 10 + (char_code c - 48)) mod 12"
    by (metis mod_add_left_eq mod_mult_left_eq)
  finally show ?case by (simp add: val_snoc)
qed

lemma calculate_mod_7_val: "digit_string s \<Longrightarrow> calculate_mod_7 s = val s mod 7"
proof (induction s rule: rev_induct)
  case Nil
  show ?case by (simp add: calculate_mod_7_def)
next
  case (snoc c s)
  then have ds: "digit_string s" and dc: "is_digit c"
    by (simp_all add: digit_string_def)
  have ih: "calculate_mod_7 s = val s mod 7" using snoc.IH ds by simp
  have nn: "0 \<le> val s mod 7 * 10 + (char_code c - 48)"
    using digit_code [OF dc] by simp
  have "calculate_mod_7 (s @ [c]) = (val s mod 7 * 10 + (char_code c - 48)) mod 7"
    by (simp add: calculate_mod_7_snoc ih smod_nonneg [OF nn])
  also have "\<dots> = (val s * 10 + (char_code c - 48)) mod 7"
    by (metis mod_add_left_eq mod_mult_left_eq)
  finally show ?case by (simp add: val_snoc)
qed

lemma of_char_char_of_nat: "(of_char (char_of (n::nat)) :: int) = int (n mod 256)"
  by (metis of_char_of of_nat_of_char)

lemma nat_digits_digit_string: "digit_string (nat_digits n)"
proof (induction n rule: nat_digits.induct)
  case (1 n)
  have d: "is_digit (char_of (48 + k))" if "k < 10" for k :: nat
    using that by (simp add: is_digit_def of_char_char_of_nat)
  show ?case
  proof (cases "n < 10")
    case True
    then show ?thesis
      using d [of n] by (subst nat_digits.simps) (simp add: digit_string_def)
  next
    case False
    then show ?thesis
      using 1 d [of "n mod 10"]
      by (subst nat_digits.simps) (simp add: digit_string_def)
  qed
qed

lemma nat_digits_val: "val (nat_digits n) = int n"
proof (induction n rule: nat_digits.induct)
  case (1 n)
  have c: "char_code (char_of (48 + k)) - 48 = int k" if "k < 10" for k :: nat
    using that by (simp add: char_code_def Let_def of_char_char_of_nat)
  show ?case
  proof (cases "n < 10")
    case True
    then show ?thesis
      using c [of n] by (subst nat_digits.simps) simp
  next
    case False
    then have "val (nat_digits n) = val (nat_digits (n div 10)) * 10 + int (n mod 10)"
      using c [of "n mod 10"] by (subst nat_digits.simps) (simp add: val_snoc)
    also have "\<dots> = int (n div 10) * 10 + int (n mod 10)"
      using 1 False by simp
    also have "\<dots> = int n"
      by (simp add: zdiv_int zmod_int)
    finally show ?thesis .
  qed
qed

lemma to_string_nonneg: "0 \<le> k \<Longrightarrow> digit_string (to_string k) \<and> val (to_string k) = k"
  by (simp add: to_string_def nat_digits_digit_string nat_digits_val)


lemma val_rev_step:
  "val (rev ls) = val (rev (tl ls)) * 10 + (if ls \<noteq> [] then char_code (hd ls) - 48 else 0)"
  by (cases ls) (simp_all add: val_snoc)

lemma hd_digit: "digit_string ls \<Longrightarrow> ls \<noteq> [] \<Longrightarrow> is_digit (hd ls)"
  by (cases ls) (simp_all add: digit_string_def)

lemma tl_digit_string: "digit_string ls \<Longrightarrow> digit_string (tl ls)"
  by (cases ls) (simp_all add: digit_string_def)

lemma carry_algebra:
  fixes a b q m dl ds carry p r :: int
  assumes "q * 10 + m = carry + dl + ds"
  shows "(a + b + q) * (10 * p) + (m * p + r) = (a * 10 + dl + (b * 10 + ds) + carry) * p + r"
proof -
  have "(a * 10 + dl + (b * 10 + ds) + carry) * p = (a * 10 + b * 10 + (carry + dl + ds)) * p"
    by (simp add: algebra_simps)
  also have "\<dots> = (a * 10 + b * 10 + (q * 10 + m)) * p"
    by (simp only: assms)
  also have "\<dots> = (a + b + q) * (10 * p) + m * p"
    by (simp add: algebra_simps)
  finally show ?thesis by simp
qed

lemma add_loop_correct:
  assumes "digit_string ls" "digit_string ss" "0 \<le> carry" "digit_string result"
  shows "digit_string (add_loop ls ss carry result) \<and>
         val (add_loop ls ss carry result) =
           (val (rev ls) + val (rev ss) + carry) * 10 ^ length result + val result \<and>
         length ls + length result \<le> length (add_loop ls ss carry result)"
  using assms
proof (induction ls ss carry result rule: add_loop.induct)
  case (1 ls ss carry result)
  show ?case
  proof (cases "ls \<noteq> [] \<or> ss \<noteq> [] \<or> carry \<noteq> 0")
    case False
    then have "add_loop ls ss carry result = result"
      by (subst add_loop.simps) simp
    with False "1.prems" show ?thesis by simp
  next
    case True
    define dl where "dl = (if ls \<noteq> [] then char_code (hd ls) - 48 else 0)"
    define ds where "ds = (if ss \<noteq> [] then char_code (hd ss) - 48 else 0)"
    define sum2 where "sum2 = carry + dl + ds"
    define ls' where "ls' = (if ls \<noteq> [] then tl ls else ls)"
    define ss' where "ss' = (if ss \<noteq> [] then tl ss else ss)"
    define r' where "r' = char_of (sum2 smod 10 + 48) # result"
    have sum_eq: "(if ss \<noteq> [] then (if ls \<noteq> [] then carry + (char_code (hd ls) - 48) else carry)
                     + (char_code (hd ss) - 48)
                   else (if ls \<noteq> [] then carry + (char_code (hd ls) - 48) else carry)) = sum2"
      by (simp add: sum2_def dl_def ds_def)
    have step: "add_loop ls ss carry result = add_loop ls' ss' (sum2 sdiv 10) r'"
      using True
      by (subst add_loop.simps) (simp add: Let_def sum_eq ls'_def ss'_def r'_def)
    have dl: "0 \<le> dl \<and> dl \<le> 9"
      using "1.prems"(1) digit_code [OF hd_digit] by (auto simp: dl_def)
    have ds: "0 \<le> ds \<and> ds \<le> 9"
      using "1.prems"(2) digit_code [OF hd_digit] by (auto simp: ds_def)
    have nn: "0 \<le> sum2" using dl ds "1.prems"(3) by (simp add: sum2_def)
    have q: "sum2 sdiv 10 = sum2 div 10" and m: "sum2 smod 10 = sum2 mod 10"
      using nn by (simp_all add: sdiv_nonneg smod_nonneg)
    have mr: "0 \<le> sum2 mod 10 \<and> sum2 mod 10 \<le> 9" by simp
    have dr: "digit_string r'"
      using "1.prems"(4) is_digit_char_of [of "sum2 mod 10"] mr
      by (simp add: r'_def m digit_string_def)
    have vr: "val r' = sum2 mod 10 * 10 ^ length result + val result"
      using char_code_char_of [of "sum2 mod 10"] mr by (simp add: r'_def m)
    have dls: "digit_string ls'" and dss: "digit_string ss'"
      using "1.prems"(1,2) tl_digit_string [of ls] tl_digit_string [of ss]
      by (auto simp: ls'_def ss'_def)
    have qn: "0 \<le> sum2 sdiv 10" using nn by (simp add: q)
    have IH: "digit_string (add_loop ls' ss' (sum2 sdiv 10) r') \<and>
         val (add_loop ls' ss' (sum2 sdiv 10) r') =
           (val (rev ls') + val (rev ss') + sum2 sdiv 10) * 10 ^ length r' + val r' \<and>
         length ls' + length r' \<le> length (add_loop ls' ss' (sum2 sdiv 10) r')"
      using "1.IH" [OF True refl refl] dls dss qn dr
      unfolding sum_eq ls'_def ss'_def r'_def by simp
    have vl: "val (rev ls) = val (rev ls') * 10 + dl"
      using val_rev_step [of ls] by (simp add: ls'_def dl_def)
    have vs: "val (rev ss) = val (rev ss') * 10 + ds"
      using val_rev_step [of ss] by (simp add: ss'_def ds_def)
    have len: "length ls \<le> length ls' + 1"
      by (simp add: ls'_def)
    have lr: "length r' = length result + 1" by (simp add: r'_def)
    have "sum2 div 10 * 10 + sum2 mod 10 = carry + dl + ds"
      by (simp add: sum2_def)
    then have v: "(val (rev ls') + val (rev ss') + sum2 sdiv 10) * 10 ^ length r' + val r'
        = (val (rev ls) + val (rev ss) + carry) * 10 ^ length result + val result"
      unfolding q vr vl vs lr by (simp add: carry_algebra)
    show ?thesis
      using IH len lr unfolding step v by simp
  qed
qed

lemma add_strings_correct:
  assumes "digit_string s" "0 \<le> k"
  shows "digit_string (add_strings s k) \<and> val (add_strings s k) = val s + k \<and>
         length s \<le> length (add_strings s k)"
proof -
  have "digit_string (rev s)" "digit_string (rev (to_string k))"
    using assms to_string_nonneg [of k] by (simp_all add: digit_string_def)
  from add_loop_correct [OF this, of 0 "[]"] to_string_nonneg [OF assms(2)]
  show ?thesis
    by (simp add: add_strings_def Let_def digit_string_def)
qed

section \<open>The prime set, the base gap, the table reads\<close>

lemma determine_prime_set_val:
  assumes "s \<noteq> []" and "digit_string s"
  shows "determine_prime_set s =
           (if s = ''2'' then SET_A else if s = ''3'' then SET_B
            else spec_prime_set_class (val s mod 12))"
proof -
  have m: "calculate_mod_12 s = val s mod 12"
    using assms(2) by (rule calculate_mod_12_val)
  have two: "val ''2'' mod 12 = 2" and three: "val ''3'' mod 12 = 3"
    by (simp_all add: char_code_def)
  show ?thesis
    using assms(1) two three
    by (auto simp: determine_prime_set_def Let_def m spec_prime_set_class_def)
qed

lemma cround_nonneg_div:
  assumes "0 \<le> n"
  shows "cround (of_int n / 50) = (n + 25) div 50"
proof -
  have "of_int n / (50 :: rat) + 1 / 2 = of_int (n + 25) / of_int 50"
    by (simp add: field_simps)
  then have "\<lfloor>of_int n / (50 :: rat) + 1 / 2\<rfloor> = (n + 25) div 50"
    by (simp only: floor_divide_of_int_eq)
  with assms show ?thesis by (simp add: cround_def)
qed

lemma round_div:
  "round (of_nat (d * d) / (50 :: rat)) = (int d * int d + 25) div 50"
proof -
  have "of_nat (d * d) / (50 :: rat) + 1 / 2 = of_int (int d * int d + 25) / of_int 50"
    by (simp add: field_simps)
  then show ?thesis
    unfolding round_def by (simp only: floor_divide_of_int_eq)
qed

lemma smod2_odd: "(x smod 2 \<noteq> 0) = odd x" for x :: int
  unfolding signed_modulo_int_def sgn_if abs_if by presburger

lemma sq_div_nonneg: "0 \<le> (int d * int d + 25) div 50"
  by (simp add: pos_imp_zdiv_nonneg_iff)

lemma base_gap_spec:
  "LGO_CalculateNextPrime_BaseGap_Detailed s = ((spec_base_gap (length s), [], int (length s)), True)"
proof -
  define q where "q = (int (length s) * int (length s) + 25) div 50"
  have c: "cround (of_int (int (length s) * int (length s)) / 50) = q"
    unfolding q_def by (rule cround_nonneg_div) simp
  have r: "round (of_nat (length s * length s) / (50 :: rat)) = q"
    unfolding q_def by (rule round_div)
  have one: "(2 :: int) sdiv 2 = 1" by (simp add: signed_divide_int_def)
  have q: "0 \<le> q" unfolding q_def by (rule sq_div_nonneg)
  have code: "LGO_CalculateNextPrime_BaseGap_Detailed s =
      ((if (if (q + 2 + 1) smod 2 \<noteq> 0 then q + 2 + 1 + 1 else q + 2 + 1) < 2 then 2
        else (if (q + 2 + 1) smod 2 \<noteq> 0 then q + 2 + 1 + 1 else q + 2 + 1), [], int (length s)), True)"
    unfolding LGO_CalculateNextPrime_BaseGap_Detailed_def Let_def c one ..
  have spec: "spec_base_gap (length s) =
      max 2 (if odd (q + 2 + 1) then q + 2 + 1 + 1 else q + 2 + 1)"
    unfolding spec_base_gap_def Let_def r ..
  show ?thesis
    unfolding code spec smod2_odd using q by (simp add: max_def)
qed

lemma spec_base_gap_closed:
  "spec_base_gap d = 2 * (((int d * int d + 25) div 50 + 4) div 2)"
proof -
  define q where "q = (int d * int d + 25) div 50"
  have "0 \<le> q" unfolding q_def by (rule sq_div_nonneg)
  then have "max 2 (if odd (q + 2 + 1) then q + 2 + 1 + 1 else q + 2 + 1) = 2 * ((q + 4) div 2)"
    unfolding max_def by presburger
  then show ?thesis
    unfolding spec_base_gap_def Let_def round_div q_def .
qed


lemma val_take_le:
  assumes "digit_string s"
  shows "val (take n s) \<le> val s"
proof -
  have d: "digit_string (take n s)" "digit_string (drop n s)"
    using assms by (simp_all add: digit_string_def list_all_iff) (auto dest: in_set_takeD in_set_dropD)
  have "val s = val (take n s) * 10 ^ length (drop n s) + val (drop n s)"
    using val_append [of "take n s" "drop n s"] by simp
  moreover have "val (take n s) * 1 \<le> val (take n s) * 10 ^ length (drop n s)"
    by (rule mult_left_mono) (simp_all add: val_nonneg [OF d(1)])
  ultimately show ?thesis
    using val_nonneg [OF d(2)] by simp
qed

lemma stold_digits:
  assumes "s \<noteq> []" and "digit_string s" and "val s < ldbl_overflow fp"
  shows "stold fp s = Inr (f_strtold fp s)"
  using assms by (simp add: stold_def)

lemma stold_lead:
  assumes "s \<noteq> []" and "digit_string s" and "val s < ldbl_overflow fp"
  shows "stold fp (take (min 10 (length s)) s) = Inr (f_strtold fp (take (min 10 (length s)) s))"
proof -
  have "digit_string (take (min 10 (length s)) s)"
    using assms(2) by (simp add: digit_string_def list_all_iff) (auto dest: in_set_takeD)
  moreover have "take (min 10 (length s)) s \<noteq> []"
    using assms(1) by (cases s) simp_all
  moreover have "val (take (min 10 (length s)) s) < ldbl_overflow fp"
    using val_take_le [OF assms(2), of "min 10 (length s)"] assms(3) by simp
  ultimately show ?thesis by (simp add: stold_def)
qed

lemma PrimeSet_int_range: "0 \<le> PrimeSet_int ps \<and> PrimeSet_int ps < 5"
  by (cases ps) simp_all

lemma array_read_12:
  "array_read ulam_delta_correction_12 (PrimeSet_int ps) =
     Inr (ulam_delta_correction_12 ! nat (PrimeSet_int ps))"
  using PrimeSet_int_range [of ps] by (simp add: array_read_def ulam_delta_correction_12_def)

lemma calculate_mod_7_range:
  "digit_string s \<Longrightarrow> 0 \<le> calculate_mod_7 s \<and> calculate_mod_7 s < 7"
  by (simp add: calculate_mod_7_val)

lemma array_read_7:
  "digit_string s \<Longrightarrow>
   array_read ulam_delta_correction_7 (calculate_mod_7 s) =
     Inr (ulam_delta_correction_7 ! nat (calculate_mod_7 s))"
  using calculate_mod_7_range [of s] by (simp add: array_read_def ulam_delta_correction_7_def)

lemma force_even_min2:
  "(if (if t smod 2 \<noteq> 0 then t + 1 else t) < 2 then 2 else (if t smod 2 \<noteq> 0 then t + 1 else t))
     = max 2 (if odd t then t + 1 else t)" for t :: int
  unfolding smod2_odd by (simp add: max_def)

section \<open>Running the predictor\<close>

lemma metrics_chain:
  fixes m :: "'f PredictionMetrics" and a b d f f' h k :: int and c i j :: 'f and e l :: string
  defines "m' \<equiv> m\<lparr>current_prime_digits := a, base_gap_out := b, g_gravitational := c,
     density_correction_G := d, current_prime_set := e, delta_out := f, fluctuation_delta := f',
     final_gap := h, correlative_adjustment := i, pnt_ratio := j, zeta_correlation_Z := k,
     rh_condition_status := l\<rparr>"
  shows "final_gap m' = h" and "base_gap_out m' = b" and "delta_out m' = f"
    and "density_correction_G m' = d" and "pnt_ratio m' = j"
    and "correlative_adjustment m' = i"
  by (simp_all add: m'_def)

lemma globals_chain:
  fixes g :: "'f globals"
  shows "current_phi (g\<lparr>current_phi := x\<rparr>) = x"
    and "current_prime_set_enum (g\<lparr>current_phi := x, current_prime_set_enum := y\<rparr>) = y"
    and "current_phi (g\<lparr>current_phi := x, current_prime_set_enum := y\<rparr>) = x"
  by simp_all

lemma predict_fields:
  assumes "s \<noteq> []" and "digit_string s" and "val s < ldbl_overflow fp"
  shows "\<exists>gap g' m'.
     LGO_Predict_Deterministic fp (g, m) s = Inr ((gap, add_strings s gap), g', m') \<and>
     final_gap m' = gap \<and>
     base_gap_out m' = spec_base_gap (length s) \<and>
     gap = max 2 (if odd (base_gap_out m' + delta_out m' + density_correction_G m')
                  then base_gap_out m' + delta_out m' + density_correction_G m' + 1
                  else base_gap_out m' + delta_out m' + density_correction_G m') \<and>
     pnt_ratio m' =
       (if f_gt fp (f_to_double fp (f_log_l fp (f_strtold fp s))) (f_lit fp 0)
        then f_div fp (f_of_ll fp gap) (f_to_double fp (f_log_l fp (f_strtold fp s)))
        else f_lit fp 0) \<and>
     density_correction_G m' = spec_G_density fp (length s) (take (min 10 (length s)) s) \<and>
     correlative_adjustment m' = spec_phi fp (length s) (take (min 10 (length s)) s) \<and>
     delta_out m' =
       ulam_delta_correction_12 ! nat (PrimeSet_int (determine_prime_set s)) +
       cround (of_int (ulam_delta_correction_7 ! nat (calculate_mod_7 s)) * MATH_PI_lit / 10)"
proof (cases "f_gt fp (f_to_double fp (f_log_l fp (f_strtold fp s))) (f_lit fp 0)")
  case True
  show ?thesis
    unfolding LGO_Predict_Deterministic_def
    apply (simp only: stold_digits [OF assms] stold_lead [OF assms] array_read_12
      array_read_7 [OF assms(2)] Let_def base_gap_spec prod.case sum.case force_even_min2
      True if_True)
    apply (intro exI conjI)
        apply (rule refl)
       apply (simp_all only: metrics_chain globals_chain True if_True
         spec_G_density_def spec_phi_def spec_ln_pn_def)
    done
next
  case False
  show ?thesis
    unfolding LGO_Predict_Deterministic_def
    apply (simp only: stold_digits [OF assms] stold_lead [OF assms] array_read_12
      array_read_7 [OF assms(2)] Let_def base_gap_spec prod.case sum.case force_even_min2
      False if_False)
    apply (intro exI conjI)
        apply (rule refl)
       apply (simp_all only: metrics_chain globals_chain False if_False
         spec_G_density_def spec_phi_def spec_ln_pn_def)
    done
qed

lemma metrics_all:
  fixes m :: "'f PredictionMetrics" and a b d f f' h k :: int and c i j :: 'f and e l :: string
  shows "m\<lparr>current_prime_digits := a, base_gap_out := b, g_gravitational := c,
     density_correction_G := d, current_prime_set := e, delta_out := f, fluctuation_delta := f',
     final_gap := h, correlative_adjustment := i, pnt_ratio := j, zeta_correlation_Z := k,
     rh_condition_status := l\<rparr> =
   \<lparr>g_gravitational = c, current_prime_digits = a, base_gap_out = b, density_correction_G = d,
     delta_out = f, fluctuation_delta = f', final_gap = h, correlative_adjustment = i,
     current_prime_set = e, zeta_correlation_Z = k, rh_condition_status = l, pnt_ratio = j\<rparr>"
  by (cases m) simp

lemma predict_throws_lead:
  assumes "stold fp (take (min 10 (length s)) s) = Inl e"
  shows "LGO_Predict_Deterministic fp st s = Inl e"
  unfolding LGO_Predict_Deterministic_def
  by (cases st) (simp only: assms Let_def base_gap_spec prod.case sum.case)

lemma predict_throws_full:
  assumes "stold fp (take (min 10 (length s)) s) = Inr lead" and "digit_string s"
    and "stold fp s = Inl e"
  shows "LGO_Predict_Deterministic fp st s = Inl e"
  unfolding LGO_Predict_Deterministic_def
  by (cases st) (simp only: assms(1,3) array_read_12 array_read_7 [OF assms(2)]
      Let_def base_gap_spec prod.case sum.case)

lemma val_nines: "val (replicate n CHR ''9'') = 10 ^ n - 1"
  by (induction n) (simp_all add: char_code_def algebra_simps)

lemma digit_string_nines: "digit_string (replicate n CHR ''9'')"
  by (simp add: digit_string_def is_digit_def list_all_iff)

lemma lt_imp_le_pred: "a < b \<Longrightarrow> a \<le> b - 1" for a b :: int
  by simp

lemma pow2_below_nines: "(2 :: int) ^ 16384 \<le> 10 ^ 5000 - 1"
proof -
  have "(2 :: int) ^ 16384 < 2 ^ (33 * 500)"
    by (rule power_strict_increasing) simp_all
  also have "\<dots> = ((2 :: int) ^ 33) ^ 500"
    by (rule power_mult)
  also have "\<dots> \<le> ((10 :: int) ^ 10) ^ 500"
    by (rule power_mono) simp_all
  also have "\<dots> = (10 :: int) ^ (10 * 500)"
    by (rule power_mult [symmetric])
  also have "\<dots> = (10 :: int) ^ 5000"
  proof -
    have "(10 :: nat) * 500 = 5000" by simp
    then show ?thesis by (rule arg_cong)
  qed
  finally show ?thesis by (rule lt_imp_le_pred)
qed

lemma stold_digit_cases:
  assumes "s \<noteq> []" and "digit_string s"
  shows "stold fp s = Inl Out_of_range \<or> stold fp s = Inr (f_strtold fp s)"
  using assms by (simp add: stold_def)

lemma take_digit_string: "digit_string s \<Longrightarrow> digit_string (take n s)"
  by (simp add: digit_string_def list_all_iff) (auto dest: in_set_takeD)

lemma predict_outcome:
  assumes "s \<noteq> []" and "digit_string s"
  shows "LGO_Predict_Deterministic fp st s = Inl Out_of_range \<or>
         (\<exists>r. LGO_Predict_Deterministic fp st s = Inr r)"
proof -
  have ne: "take (min 10 (length s)) s \<noteq> []"
    using assms(1) by (cases s) simp_all
  note lead = stold_digit_cases [OF ne take_digit_string [OF assms(2)], of fp]
  note full = stold_digit_cases [OF assms, of fp]
  show ?thesis
  proof (cases "stold fp (take (min 10 (length s)) s) = Inl Out_of_range")
    case True
    then show ?thesis by (simp add: predict_throws_lead)
  next
    case False
    with lead have l: "stold fp (take (min 10 (length s)) s)
        = Inr (f_strtold fp (take (min 10 (length s)) s))" by simp
    show ?thesis
    proof (cases "stold fp s = Inl Out_of_range")
      case True
      then show ?thesis by (simp add: predict_throws_full [OF l assms(2)])
    next
      case False
      with full have f: "stold fp s = Inr (f_strtold fp s)" by simp
      obtain g m where st: "st = (g, m)" by (cases st)
      show ?thesis
      proof (cases "f_gt fp (f_to_double fp (f_log_l fp (f_strtold fp s))) (f_lit fp 0)")
        case True
        show ?thesis
          unfolding LGO_Predict_Deterministic_def st
          apply (simp only: l f True array_read_12 array_read_7 [OF assms(2)] Let_def
              base_gap_spec prod.case sum.case if_True)
          apply (intro disjI2 exI)
          apply (rule refl)
          done
      next
        case False
        show ?thesis
          unfolding LGO_Predict_Deterministic_def st
          apply (simp only: l f False array_read_12 array_read_7 [OF assms(2)] Let_def
              base_gap_spec prod.case sum.case if_False)
          apply (intro disjI2 exI)
          apply (rule refl)
          done
      qed
    qed
  qed
qed

lemma predict_overflow:
  assumes "s \<noteq> []" and "digit_string s" and "ldbl_overflow fp \<le> val s"
  shows "LGO_Predict_Deterministic fp st s = Inl Out_of_range"
proof -
  have full: "stold fp s = Inl Out_of_range"
    using assms by (simp only: stold_def if_False if_True)
  have ne: "take (min 10 (length s)) s \<noteq> []"
    using assms(1) by (cases s) simp_all
  from stold_digit_cases [OF ne take_digit_string [OF assms(2)], of fp]
  show ?thesis
  proof
    assume "stold fp (take (min 10 (length s)) s) = Inl Out_of_range"
    then show ?thesis by (rule predict_throws_lead)
  next
    assume "stold fp (take (min 10 (length s)) s)
              = Inr (f_strtold fp (take (min 10 (length s)) s))"
    then show ?thesis using assms(2) full by (rule predict_throws_full)
  qed
qed

lemma max2_even: "even (max 2 (if odd t then t + 1 else t)) \<and> 2 \<le> max 2 (if odd t then t + 1 else t)"
  for t :: int
  by (simp add: max_def)

lemma diff_le_trans: "a \<le> c \<Longrightarrow> 0 \<le> b \<Longrightarrow> a - b \<le> c" for a b c :: int
  by simp

section \<open>Claims on the string arithmetic\<close>

text \<open>
  C1. For every non-empty string \<open>s\<close> of decimal digits and every non-negative \<open>k\<close> that a
  \<open>long long\<close> holds, \<open>add_strings s k\<close> is a string of decimal digits, at least as long
  as \<open>s\<close>, whose value is exactly the value of \<open>s\<close> plus \<open>k\<close>, however long \<open>s\<close> is.
\<close>

theorem add_strings_exact:
  assumes "s \<noteq> []" and "digit_string s" and "0 \<le> k" and "k < 2 ^ 63"
  shows "digit_string (add_strings s k) \<and>
         length s \<le> length (add_strings s k) \<and>
         val (add_strings s k) = val s + k"
  using add_strings_correct [OF assms(2,3)] by simp

theorem add_strings_exact_witness:
  "''9999999967'' \<noteq> [] \<and> digit_string ''9999999967'' \<and> (0 :: int) \<le> 38 \<and> (38 :: int) < 2 ^ 63 \<and>
   digit_string (add_strings ''9999999967'' 38) \<and>
   length ''9999999967'' \<le> length (add_strings ''9999999967'' 38) \<and>
   val (add_strings ''9999999967'' 38) = 10000000005"
proof -
  have h: "''9999999967'' \<noteq> []" "digit_string ''9999999967''" "(0 :: int) \<le> 38" "(38 :: int) < 2 ^ 63"
    by (simp_all add: digit_string_def is_digit_def)
  have v: "val ''9999999967'' = 9999999967"
    by (simp add: char_code_def)
  from add_strings_exact [OF h] h v show ?thesis by simp
qed

text \<open>
  C6. For every non-empty string of decimal digits, \<open>calculate_mod_12\<close> and
  \<open>calculate_mod_7\<close>, which run \<open>remainder = (remainder * 10 + digit) % modulus\<close> over the
  digits in order, return the value of the string modulo 12 and modulo 7, whatever its
  length.
\<close>

theorem calculate_mod_exact:
  assumes "s \<noteq> []" and "digit_string s"
  shows "calculate_mod_12 s = val s mod 12 \<and> calculate_mod_7 s = val s mod 7"
  using assms(2) by (simp add: calculate_mod_12_val calculate_mod_7_val)

theorem calculate_mod_exact_witness:
  "''31415926535897932384626433832795028841971693993751'' \<noteq> [] \<and>
   digit_string ''31415926535897932384626433832795028841971693993751'' \<and>
   calculate_mod_12 ''31415926535897932384626433832795028841971693993751'' = 7 \<and>
   calculate_mod_7 ''31415926535897932384626433832795028841971693993751'' = 6"
proof -
  have h: "''31415926535897932384626433832795028841971693993751'' \<noteq> []"
    "digit_string ''31415926535897932384626433832795028841971693993751''"
    by (simp_all add: digit_string_def is_digit_def)
  have v: "val ''31415926535897932384626433832795028841971693993751''
             = 31415926535897932384626433832795028841971693993751"
    by (simp add: char_code_def)
  from calculate_mod_exact [OF h] h show ?thesis unfolding v by simp
qed

text \<open>
  C5. \<open>determine_prime_set\<close> classifies a non-empty string of decimal digits by its value
  modulo 12 (1 is \<open>SET_A\<close>, 5 is \<open>SET_B\<close>, 7 is \<open>SET_C\<close>, 11 is \<open>SET_D\<close>, anything else
  \<open>SET_NONE\<close>), except that the string \<open>2\<close> is \<open>SET_A\<close> and the string \<open>3\<close> is \<open>SET_B\<close>; so
  two such strings with the same remainder, neither of them \<open>2\<close> or \<open>3\<close>, are classified
  alike.
\<close>

theorem determine_prime_set_by_mod_12:
  assumes "s \<noteq> []" and "digit_string s" and "t \<noteq> []" and "digit_string t"
  shows "determine_prime_set s =
           (if s = ''2'' then SET_A else if s = ''3'' then SET_B
            else spec_prime_set_class (val s mod 12)) \<and>
         (val s mod 12 = val t mod 12 \<and> s \<noteq> ''2'' \<and> s \<noteq> ''3'' \<and> t \<noteq> ''2'' \<and> t \<noteq> ''3''
            \<longrightarrow> determine_prime_set s = determine_prime_set t)"
  using determine_prime_set_val [OF assms(1,2)] determine_prime_set_val [OF assms(3,4)]
  by simp

theorem determine_prime_set_by_mod_12_witness:
  "''9999999967'' \<noteq> [] \<and> digit_string ''9999999967'' \<and> ''0019'' \<noteq> [] \<and> digit_string ''0019'' \<and>
   val ''9999999967'' mod 12 = val ''0019'' mod 12 \<and>
   determine_prime_set ''9999999967'' = SET_C \<and>
   determine_prime_set ''9999999967'' = determine_prime_set ''0019''"
proof -
  have h: "''9999999967'' \<noteq> []" "digit_string ''9999999967''" "''0019'' \<noteq> []" "digit_string ''0019''"
    by (simp_all add: digit_string_def is_digit_def)
  have v: "val ''9999999967'' = 9999999967" "val ''0019'' = 19"
    by (simp_all add: char_code_def)
  from determine_prime_set_by_mod_12 [OF h] h show ?thesis
    unfolding v by (auto simp: spec_prime_set_class_def)
qed

text \<open>
  C10. For every non-empty string of decimal digits, \<open>calculate_mod_7\<close> is in \<open>[0, 7)\<close> and
  the enumerator \<open>determine_prime_set\<close> returns is in \<open>[0, 5)\<close>, so both table reads of
  \<open>LGO_Predict_Deterministic\<close> stay inside the 7-entry and the 5-entry array.
\<close>

theorem table_reads_in_bounds:
  assumes "s \<noteq> []" and "digit_string s"
  shows "0 \<le> calculate_mod_7 s \<and> calculate_mod_7 s < int (length ulam_delta_correction_7) \<and>
         length ulam_delta_correction_7 = 7 \<and>
         0 \<le> PrimeSet_int (determine_prime_set s) \<and>
         PrimeSet_int (determine_prime_set s) < int (length ulam_delta_correction_12) \<and>
         length ulam_delta_correction_12 = 5 \<and>
         array_read ulam_delta_correction_7 (calculate_mod_7 s) \<noteq> Inl Out_of_bounds \<and>
         array_read ulam_delta_correction_12 (PrimeSet_int (determine_prime_set s))
           \<noteq> Inl Out_of_bounds \<and>
         LGO_Predict_Deterministic fp st s \<noteq> Inl Out_of_bounds"
proof -
  have "LGO_Predict_Deterministic fp st s \<noteq> Inl Out_of_bounds"
    using predict_outcome [OF assms, of fp st] by auto
  then show ?thesis
    using calculate_mod_7_range [OF assms(2)] PrimeSet_int_range [of "determine_prime_set s"]
      array_read_7 [OF assms(2)] array_read_12 [of "determine_prime_set s"]
    by (simp add: ulam_delta_correction_7_def ulam_delta_correction_12_def)
qed

theorem table_reads_in_bounds_witness:
  "''9999999999999999997'' \<noteq> [] \<and> digit_string ''9999999999999999997'' \<and>
   calculate_mod_7 ''9999999999999999997'' = 0 \<and>
   PrimeSet_int (determine_prime_set ''9999999999999999997'') = 1 \<and>
   array_read ulam_delta_correction_7 (calculate_mod_7 ''9999999999999999997'') \<noteq> Inl Out_of_bounds \<and>
   array_read ulam_delta_correction_12 (PrimeSet_int (determine_prime_set ''9999999999999999997''))
     \<noteq> Inl Out_of_bounds \<and>
   LGO_Predict_Deterministic rat_fpu (globals0, metrics0) ''9999999999999999997''
     \<noteq> Inl Out_of_bounds"
proof -
  have h: "''9999999999999999997'' \<noteq> []" "digit_string ''9999999999999999997''"
    by (simp_all add: digit_string_def is_digit_def)
  have v: "val ''9999999999999999997'' = 9999999999999999997"
    by (simp add: char_code_def)
  have m7: "calculate_mod_7 ''9999999999999999997'' = 0"
    using calculate_mod_7_val [OF h(2)] unfolding v by simp
  have ps: "determine_prime_set ''9999999999999999997'' = SET_A"
    using determine_prime_set_val [OF h] unfolding v by (simp add: spec_prime_set_class_def)
  from table_reads_in_bounds [OF h, of rat_fpu "(globals0, metrics0)"] h m7 ps
  show ?thesis by simp
qed

section \<open>Claims on the predictor\<close>

text \<open>
  C7. The base gap depends on the digit count \<open>d\<close> alone: with \<open>base = round (d * d / 50) + 2\<close>
  it is \<open>base + 1\<close> (the quotient \<open>2 / 2\<close> is 1), plus one if odd, raised to 2 if below 2;
  that is \<open>base + 1\<close> rounded up to an even number, and it is at least 2.
\<close>

theorem base_gap_by_digit_count:
  "LGO_CalculateNextPrime_BaseGap_Detailed s = ((spec_base_gap (length s), [], int (length s)), True) \<and>
   (2 :: int) sdiv 2 = 1 \<and>
   spec_base_gap d = 2 * ((round (of_nat (d * d) / (50 :: rat)) + 2 + 1 + 1) div 2) \<and>
   even (spec_base_gap d) \<and> 2 \<le> spec_base_gap d"
proof -
  have one: "(2 :: int) sdiv 2 = 1" by (simp add: signed_divide_int_def)
  have c: "spec_base_gap d = 2 * (((int d * int d + 25) div 50 + 4) div 2)"
    by (rule spec_base_gap_closed)
  have r: "round (of_nat (d * d) / (50 :: rat)) + 2 + 1 + 1 = (int d * int d + 25) div 50 + 4"
    unfolding round_div by simp
  have q: "0 \<le> (int d * int d + 25) div 50" by (rule sq_div_nonneg)
  have e: "even (spec_base_gap d)" by (simp only: c) simp
  have "2 \<le> 2 * ((x + 4) div 2)" if "0 \<le> x" for x :: int
    using that by presburger
  from this [OF q] have g: "2 \<le> spec_base_gap d" unfolding c .
  show ?thesis
    using base_gap_spec [of s] one c e g by (simp only: r)
qed

text \<open>
  C2. For every non-empty string of decimal digits, the final gap that
  \<open>LGO_Predict_Deterministic\<close> returns is the base gap heuristic plus \<open>delta_final\<close> plus
  \<open>G_density\<close>, plus one if that sum is odd, raised to 2 if below 2; it is the gap stored in
  the metrics and the one added to the input, and it is even and at least 2. (No gap is
  returned when the value of the input is beyond what \<open>std::stold\<close> converts: the call ends
  in \<open>out_of_range\<close>.)
\<close>

theorem final_gap_even_at_least_2:
  assumes "s \<noteq> []" and "digit_string s"
  shows "(ldbl_overflow fp \<le> val s \<and> LGO_Predict_Deterministic fp (g, m) s = Inl Out_of_range) \<or>
     (\<exists>gap nxt g' m'.
        LGO_Predict_Deterministic fp (g, m) s = Inr ((gap, nxt), g', m') \<and>
        base_gap_out m' = fst (fst (LGO_CalculateNextPrime_BaseGap_Detailed s)) \<and>
        gap = max 2 (if odd (base_gap_out m' + delta_out m' + density_correction_G m')
                     then base_gap_out m' + delta_out m' + density_correction_G m' + 1
                     else base_gap_out m' + delta_out m' + density_correction_G m') \<and>
        delta_out m' =
          ulam_delta_correction_12 ! nat (PrimeSet_int (determine_prime_set s)) +
          cround (of_int (ulam_delta_correction_7 ! nat (calculate_mod_7 s)) * MATH_PI_lit / 10) \<and>
        density_correction_G m' = spec_G_density fp (length s) (take (min 10 (length s)) s) \<and>
        final_gap m' = gap \<and> even gap \<and> 2 \<le> gap \<and>
        nxt = add_strings s gap \<and> digit_string nxt \<and> val nxt = val s + gap)"
proof (cases "ldbl_overflow fp \<le> val s")
  case True
  with predict_overflow [OF assms True] show ?thesis by simp
next
  case False
  then have lt: "val s < ldbl_overflow fp" by simp
  from predict_fields [OF assms lt, of g m]
  obtain gap g' m' where
    run: "LGO_Predict_Deterministic fp (g, m) s = Inr ((gap, add_strings s gap), g', m')" and
    fg: "final_gap m' = gap" and
    bg: "base_gap_out m' = spec_base_gap (length s)" and
    gp: "gap = max 2 (if odd (base_gap_out m' + delta_out m' + density_correction_G m')
                     then base_gap_out m' + delta_out m' + density_correction_G m' + 1
                     else base_gap_out m' + delta_out m' + density_correction_G m')" and
    gd: "density_correction_G m' = spec_G_density fp (length s) (take (min 10 (length s)) s)" and
    dl: "delta_out m' =
          ulam_delta_correction_12 ! nat (PrimeSet_int (determine_prime_set s)) +
          cround (of_int (ulam_delta_correction_7 ! nat (calculate_mod_7 s)) * MATH_PI_lit / 10)"
    by blast
  have ev: "even gap \<and> 2 \<le> gap"
    using max2_even [of "base_gap_out m' + delta_out m' + density_correction_G m'"]
    unfolding gp [symmetric] .
  then have "0 \<le> gap" by simp
  from add_strings_correct [OF assms(2) this]
  have ad: "digit_string (add_strings s gap) \<and> val (add_strings s gap) = val s + gap" by simp
  have bg': "base_gap_out m' = fst (fst (LGO_CalculateNextPrime_BaseGap_Detailed s))"
    by (simp add: bg base_gap_spec)
  show ?thesis
    using run fg bg' gp gd dl ev ad by blast
qed

theorem final_gap_even_at_least_2_witness:
  "''9999999967'' \<noteq> [] \<and> digit_string ''9999999967'' \<and>
   \<not> ldbl_overflow rat_fpu \<le> val ''9999999967'' \<and>
   (\<exists>gap nxt g' m'.
      LGO_Predict_Deterministic rat_fpu (globals0, metrics0) ''9999999967''
        = Inr ((gap, nxt), g', m') \<and>
      final_gap m' = gap \<and> even gap \<and> 2 \<le> gap \<and> val nxt = 9999999967 + gap)"
proof -
  have h: "''9999999967'' \<noteq> []" "digit_string ''9999999967''"
    by (simp_all add: digit_string_def is_digit_def)
  have v: "val ''9999999967'' = 9999999967"
    by (simp add: char_code_def)
  have o: "\<not> ldbl_overflow rat_fpu \<le> val ''9999999967''"
    unfolding v by (simp add: rat_fpu_def)
  from final_gap_even_at_least_2 [OF h, of rat_fpu globals0 metrics0] o h
  show ?thesis unfolding v by blast
qed

text \<open>
  C8. For every non-empty string of \<open>d\<close> decimal digits on which the call returns, the density
  correction in the metrics is the rounding of \<open>(ln_pn * log C_LGO_STAR) / C_LGO_STAR\<close> with
  \<open>ln_pn = log 10 * (d - 1) + log v\<close>, where \<open>v\<close> is the conversion of the leading
  \<open>min 10 d\<close> digits only, so that inputs of one length with the same ten leading digits
  get the same correction; the PNT ratio is computed from the conversion of the entire
  string. The floating-point operations are those of the platform, left uninterpreted.
\<close>

theorem density_correction_from_leading_digits:
  assumes "s \<noteq> []" and "digit_string s" and "val s < ldbl_overflow fp"
  shows "\<exists>gap nxt g' m'.
     LGO_Predict_Deterministic fp (g, m) s = Inr ((gap, nxt), g', m') \<and>
     density_correction_G m' = spec_G_density fp (length s) (take (min 10 (length s)) s) \<and>
     correlative_adjustment m' = spec_phi fp (length s) (take (min 10 (length s)) s) \<and>
     (\<forall>t. length t = length s \<and> take 10 t = take 10 s \<longrightarrow>
        spec_G_density fp (length t) (take (min 10 (length t)) t) = density_correction_G m') \<and>
     pnt_ratio m' =
       (if f_gt fp (f_to_double fp (f_log_l fp (f_strtold fp s))) (f_lit fp 0)
        then f_div fp (f_of_ll fp gap) (f_to_double fp (f_log_l fp (f_strtold fp s)))
        else f_lit fp 0)"
proof -
  have pre: "take (min 10 (length t)) t = take (min 10 (length s)) s"
    if "length t = length s \<and> take 10 t = take 10 s" for t
  proof -
    have "take (min 10 (length t)) t = take 10 t" by (simp add: min_def)
    moreover have "take (min 10 (length s)) s = take 10 s" by (simp add: min_def)
    ultimately show ?thesis using that by simp
  qed
  from predict_fields [OF assms, of g m]
  obtain gap g' m' where
    run: "LGO_Predict_Deterministic fp (g, m) s = Inr ((gap, add_strings s gap), g', m')" and
    gd: "density_correction_G m' = spec_G_density fp (length s) (take (min 10 (length s)) s)" and
    ca: "correlative_adjustment m' = spec_phi fp (length s) (take (min 10 (length s)) s)" and
    pr: "pnt_ratio m' =
       (if f_gt fp (f_to_double fp (f_log_l fp (f_strtold fp s))) (f_lit fp 0)
        then f_div fp (f_of_ll fp gap) (f_to_double fp (f_log_l fp (f_strtold fp s)))
        else f_lit fp 0)"
    by blast
  have pd: "\<forall>t. length t = length s \<and> take 10 t = take 10 s \<longrightarrow>
        spec_G_density fp (length t) (take (min 10 (length t)) t) = density_correction_G m'"
  proof (intro allI impI)
    fix t
    assume "length t = length s \<and> take 10 t = take 10 s"
    then show "spec_G_density fp (length t) (take (min 10 (length t)) t) = density_correction_G m'"
      using pre [of t] gd by (simp only:)
  qed
  show ?thesis
    by (intro exI conjI) (rule run gd ca pd pr)+
qed

theorem density_correction_from_leading_digits_witness:
  "''99999999670'' \<noteq> [] \<and> digit_string ''99999999670'' \<and>
   val ''99999999670'' < ldbl_overflow rat_fpu \<and>
   (\<exists>gap nxt g' m'.
      LGO_Predict_Deterministic rat_fpu (globals0, metrics0) ''99999999670''
        = Inr ((gap, nxt), g', m') \<and>
      density_correction_G m' = spec_G_density rat_fpu (length ''99999999670'') ''9999999967'' \<and>
      spec_G_density rat_fpu (length ''99999999671'') (take (min 10 (length ''99999999671'')) ''99999999671'')
        = density_correction_G m')"
proof -
  have v: "val ''99999999670'' = 99999999670"
    by (simp add: char_code_def)
  have h: "''99999999670'' \<noteq> []" "digit_string ''99999999670''"
    "val ''99999999670'' < ldbl_overflow rat_fpu"
    unfolding v by (simp_all add: digit_string_def is_digit_def rat_fpu_def)
  have tk: "take (min 10 (length ''99999999670'')) ''99999999670'' = ''9999999967''"
    by simp
  have e: "length ''99999999671'' = length ''99999999670'' \<and>
           take 10 ''99999999671'' = take 10 ''99999999670''"
    by simp
  have "\<exists>gap nxt g' m'.
      LGO_Predict_Deterministic rat_fpu (globals0, metrics0) ''99999999670''
        = Inr ((gap, nxt), g', m') \<and>
      density_correction_G m' = spec_G_density rat_fpu (length ''99999999670'') ''9999999967'' \<and>
      spec_G_density rat_fpu (length ''99999999671'') (take (min 10 (length ''99999999671'')) ''99999999671'')
        = density_correction_G m'"
    using density_correction_from_leading_digits [OF h, of globals0 metrics0]
  proof (elim exE conjE)
    fix gap nxt g' m'
    assume run: "LGO_Predict_Deterministic rat_fpu (globals0, metrics0) ''99999999670''
            = Inr ((gap, nxt), g', m')"
      and gd: "density_correction_G m' =
           spec_G_density rat_fpu (length ''99999999670'')
             (take (min 10 (length ''99999999670'')) ''99999999670'')"
      and pd: "\<forall>t. length t = length ''99999999670'' \<and> take 10 t = take 10 ''99999999670'' \<longrightarrow>
        spec_G_density rat_fpu (length t) (take (min 10 (length t)) t) = density_correction_G m'"
    have g1: "density_correction_G m'
        = spec_G_density rat_fpu (length ''99999999670'') ''9999999967''"
      using gd unfolding tk .
    note p2 = pd [rule_format, OF e]
    show ?thesis
      by (intro exI conjI) (rule run g1 p2)+
  qed
  with h show ?thesis by (intro conjI)
qed

text \<open>
  C9. When \<open>std::stold\<close> converts the entire input, the PNT ratio in the metrics is the final
  gap divided by the logarithm of that value if the logarithm is greater than zero, and
  zero otherwise; the call returns in both cases, so a degenerate input (value 0 or 1)
  raises nothing.
\<close>

theorem pnt_ratio_guarded:
  assumes "s \<noteq> []" and "digit_string s" and "val s < ldbl_overflow fp"
  shows "\<exists>gap nxt g' m'.
     LGO_Predict_Deterministic fp (g, m) s = Inr ((gap, nxt), g', m') \<and>
     final_gap m' = gap \<and>
     stold fp s = Inr (f_strtold fp s) \<and>
     pnt_ratio m' =
       (if f_gt fp (f_to_double fp (f_log_l fp (f_strtold fp s))) (f_lit fp 0)
        then f_div fp (f_of_ll fp gap) (f_to_double fp (f_log_l fp (f_strtold fp s)))
        else f_lit fp 0)"
  using predict_fields [OF assms, of g m] stold_digits [OF assms] by blast

theorem pnt_ratio_guarded_witness:
  "''1'' \<noteq> [] \<and> digit_string ''1'' \<and> val ''1'' < ldbl_overflow rat_fpu \<and>
   \<not> f_gt rat_fpu (f_to_double rat_fpu (f_log_l rat_fpu (f_strtold rat_fpu ''1''))) (f_lit rat_fpu 0) \<and>
   (\<exists>gap nxt g' m'.
      LGO_Predict_Deterministic rat_fpu (globals0, metrics0) ''1'' = Inr ((gap, nxt), g', m') \<and>
      pnt_ratio m' = 0)"
proof -
  have v: "val ''1'' = 1"
    by (simp add: char_code_def)
  have h: "''1'' \<noteq> []" "digit_string ''1''" "val ''1'' < ldbl_overflow rat_fpu"
    unfolding v by (simp_all add: digit_string_def is_digit_def rat_fpu_def)
  have z: "\<not> f_gt rat_fpu (f_to_double rat_fpu (f_log_l rat_fpu (f_strtold rat_fpu ''1'')))
              (f_lit rat_fpu 0)"
    by (simp add: rat_fpu_def char_code_def)
  have l: "f_lit rat_fpu 0 = 0" by (simp add: rat_fpu_def)
  from pnt_ratio_guarded [OF h, of globals0 metrics0] h z l show ?thesis
    by auto
qed

text \<open>
  C4. The pair \<open>LGO_Predict_Deterministic\<close> returns and the metrics record it fills (or
  the exception it ends in) are determined by the input string and the fixed constants
  alone: they are the same from any two states of the globals and of the caller's record,
  whatever earlier calls left there.
\<close>

theorem predict_pure:
  "map_sum id (\<lambda>(ret, g', m'). (ret, m')) (LGO_Predict_Deterministic fp (g1, m1) s) =
   map_sum id (\<lambda>(ret, g', m'). (ret, m')) (LGO_Predict_Deterministic fp (g2, m2) s)"
proof (cases "stold fp (take (min 10 (length s)) s)")
  case (Inl e)
  show ?thesis by (simp only: predict_throws_lead [OF Inl])
next
  case lead: (Inr lead)
  show ?thesis
  proof (cases "array_read ulam_delta_correction_7 (calculate_mod_7 s)")
    case (Inl e)
    show ?thesis
      unfolding LGO_Predict_Deterministic_def
      by (simp only: lead Inl array_read_12 Let_def base_gap_spec prod.case sum.case)
  next
    case d7: (Inr delta_7)
    show ?thesis
    proof (cases "stold fp s")
      case (Inl e)
      show ?thesis
        unfolding LGO_Predict_Deterministic_def
        by (simp only: lead d7 Inl array_read_12 Let_def base_gap_spec prod.case sum.case)
    next
      case full: (Inr full)
      show ?thesis
      proof (cases "f_gt fp (f_to_double fp (f_log_l fp full)) (f_lit fp 0)")
        case True
        show ?thesis
          unfolding LGO_Predict_Deterministic_def
          by (simp only: lead d7 full True array_read_12 Let_def base_gap_spec prod.case
              sum.case if_True globals_chain metrics_all map_sum.simps)
      next
        case False
        show ?thesis
          unfolding LGO_Predict_Deterministic_def
          by (simp only: lead d7 full False array_read_12 Let_def base_gap_spec prod.case
              sum.case if_False globals_chain metrics_all map_sum.simps)
      qed
    qed
  qed
qed

text \<open>
  C3 (failing input). On a string of 5000 nines, \<open>std::stold\<close> overflows whatever the long
  double format (none reaches \<open>2 ^ 16384\<close>), and \<open>LGO_Predict_Deterministic\<close> ends in
  \<open>out_of_range\<close>.
\<close>

theorem predict_throws_on_5000_nines:
  assumes "ldbl_overflow fp \<le> 2 ^ 16384"
  shows "LGO_Predict_Deterministic fp st (replicate 5000 CHR ''9'') = Inl Out_of_range"
proof -
  have "val (replicate 5000 CHR ''9'') = 10 ^ 5000 - 1"
    by (rule val_nines)
  with pow2_below_nines assms have "ldbl_overflow fp \<le> val (replicate 5000 CHR ''9'')"
    by (simp only: order_trans)
  moreover have "replicate 5000 CHR ''9'' \<noteq> []"
    by (simp only: replicate_empty)
  ultimately show ?thesis
    using digit_string_nines by (intro predict_overflow)
qed

theorem predict_throws_on_5000_nines_witness:
  "ldbl_overflow rat_fpu \<le> 2 ^ 16384 \<and>
   LGO_Predict_Deterministic rat_fpu (globals0, metrics0) (replicate 5000 CHR ''9'')
     = Inl Out_of_range"
proof -
  have "(2 :: int) ^ 1024 \<le> 2 ^ 16384"
    by (rule power_increasing) simp_all
  moreover have "(0 :: int) \<le> 2 ^ 970"
    by (rule zero_le_power) simp
  ultimately have "(2 :: int) ^ 1024 - 2 ^ 970 \<le> 2 ^ 16384"
    by (rule diff_le_trans)
  moreover have "ldbl_overflow rat_fpu = 2 ^ 1024 - 2 ^ 970"
    by (simp only: rat_fpu_def fpu.simps)
  ultimately have h: "ldbl_overflow rat_fpu \<le> 2 ^ 16384"
    by (simp only:)
  from predict_throws_on_5000_nines [OF h] h show ?thesis
    by (intro conjI)
qed

end
